theory Spec2Isabelle
  imports Main
begin

section \<open>Execution steps\<close>

text \<open>
  Modelled from the spec: the declaration of \<open>FlowStep\<close> (\<open>ts/types/results\<close>) is not
  among the sources. The spec gives a detailed step as
  \<open>{ line: integer (1-based), skipped: boolean, exception: string|null, notes: string|null }\<close>;
  the renderer reads exactly these four fields. An absent or \<open>null\<close> string is \<open>None\<close>.
  The field \<open>notes\<close> is written \<open>notes'\<close>, since \<open>notes\<close> is reserved.
\<close>

record FlowStep =
  line :: int
  skipped :: bool
  exception :: "string option"
  notes' :: "string option"

text \<open>An element of \<open>ReadonlyArray<FlowStep|number>\<close>: a bare line number or a detailed step.\<close>

datatype Step = Bare int | Detailed FlowStep

text \<open>
  JavaScript truthiness of a \<open>string|null|undefined\<close>: \<open>null\<close>, \<open>undefined\<close> and the empty
  string are falsy, every other string is truthy.
\<close>

definition truthy :: "string option \<Rightarrow> bool" where
  "truthy v = (case v of None \<Rightarrow> False | Some s \<Rightarrow> s \<noteq> [])"

text \<open>\<open>(step as FlowStep).skipped\<close>: a property read on a number gives \<open>undefined\<close>, which is falsy.\<close>

fun stepSkipped :: "Step \<Rightarrow> bool" where
  "stepSkipped (Bare n) = False"
| "stepSkipped (Detailed s) = skipped s"

text \<open>
  \<open>let lineNumber = step as number; let exception = null;
  if (typeof step === 'object') { lineNumber = step.line; exception = step.exception; }\<close>
\<close>

fun stepLineNumber :: "Step \<Rightarrow> int" where
  "stepLineNumber (Bare n) = n"
| "stepLineNumber (Detailed s) = line s"

fun stepException :: "Step \<Rightarrow> string option" where
  "stepException (Bare n) = None"
| "stepException (Detailed s) = exception s"

section \<open>Jump arrows\<close>

text \<open>
  The object literal \<open>{ fromLine, toLine, options: { throw } }\<close> pushed by the scan.
  \<open>fromLine\<close> is computed as \<open>lastLineNumber! - 1\<close>; the \<open>!\<close> is erased at run time, so on
  an undefined \<open>lastLineNumber\<close> the subtraction would give \<open>NaN\<close>: that is \<open>None\<close> here.
\<close>

record JumpArrowOptions =
  throw :: bool

record JumpArrow =
  fromLine :: "int option"
  toLine :: int
  options :: JumpArrowOptions

text \<open>The three locals of the scan: \<open>jumpArrows\<close>, \<open>lastLineNumber\<close>, \<open>lastException\<close>.\<close>

record Scan =
  jumpArrows :: "JumpArrow list"
  lastLineNumber :: "int option"
  lastException :: "string option"

definition initialScan :: Scan where
  "initialScan = \<lparr>jumpArrows = [], lastLineNumber = None, lastException = None\<rparr>"

text \<open>
  \<open>const important = (lastLineNumber != null &&
     (lineNumber < lastLineNumber || lineNumber - lastLineNumber > 2)) || lastException;\<close>
\<close>

definition important :: "int option \<Rightarrow> string option \<Rightarrow> int \<Rightarrow> bool" where
  "important lastLine lastExc lineNumber =
     ((case lastLine of None \<Rightarrow> False
       | Some l \<Rightarrow> lineNumber < l \<or> lineNumber - l > 2) \<or> truthy lastExc)"

text \<open>One iteration of \<open>for (const step of steps)\<close>; \<open>continue\<close> leaves the locals as they are.\<close>

definition scanStep :: "Step \<Rightarrow> Scan \<Rightarrow> Scan" where
  "scanStep step st =
     (if stepSkipped step then st
      else
        let lineNumber = stepLineNumber step;
            exception = stepException step;
            arrows =
              (if important (lastLineNumber st) (lastException st) lineNumber
               then jumpArrows st @
                      [\<lparr>fromLine = map_option (\<lambda>l. l - 1) (lastLineNumber st),
                        toLine = lineNumber - 1,
                        options = \<lparr>throw = truthy (lastException st)\<rparr>\<rparr>]
               else jumpArrows st)
        in \<lparr>jumpArrows = arrows, lastLineNumber = Some lineNumber, lastException = exception\<rparr>)"

fun scanSteps :: "Step list \<Rightarrow> Scan \<Rightarrow> Scan" where
  "scanSteps [] st = st"
| "scanSteps (step # steps) st = scanSteps steps (scanStep step st)"

text \<open>The list handed to \<open>cm.setJumpArrows\<close>.\<close>

definition computeJumpArrows :: "Step list \<Rightarrow> JumpArrow list" where
  "computeJumpArrows steps = jumpArrows (scanSteps steps initialScan)"

section \<open>The editor\<close>

text \<open>
  Modelled from the spec: the editor is CodeMirror together with the jump-arrow addon
  (\<open>internal/codemirror/addon-jump-arrows\<close>), neither among the sources. The spec lists what
  the renderer consumes: reading a line, line-end bookmark placement with a caller-supplied
  widget, clearing a bookmark, and replacement of the whole jump-arrow layer. A
  \<open>TextMarker\<close> is an object with identity, here a number; the editor holds its live
  bookmarks in creation order.
\<close>

type_synonym TextMarker = nat

text \<open>The \<open>span\<close> built by \<open>createFlowLineEndWidget\<close>: its class and its text.\<close>

record Widget =
  className :: string
  textContent :: string

text \<open>A bookmark placed by \<open>cm.setBookmark({ line, ch }, { widget })\<close>.\<close>

record Bookmark =
  bmLine :: int
  bmCh :: nat
  bmWidget :: Widget

record Editor =
  document :: "string list"
  arrowLayer :: "JumpArrow list"
  marks :: "(TextMarker \<times> Bookmark) list"

text \<open>
  Modelled from the spec: \<open>cm.setJumpArrows(arrows)\<close> of the jump-arrow addon, which is
  not among the sources; the spec has the layer fully overwritten by each call.
\<close>

definition setJumpArrows :: "JumpArrow list \<Rightarrow> Editor \<Rightarrow> Editor" where
  "setJumpArrows arrows cm = cm\<lparr>arrowLayer := arrows\<rparr>"

text \<open>
  Modelled from the spec: \<open>cm.getLine(n)\<close> of CodeMirror, the text of the 0-based line
  \<open>n\<close>; for a line the document does not have CodeMirror gives \<open>undefined\<close>, here
  \<open>None\<close>.
\<close>

definition getLine :: "Editor \<Rightarrow> int \<Rightarrow> string option" where
  "getLine cm n =
     (if 0 \<le> n \<and> n < int (length (document cm)) then Some (document cm ! nat n) else None)"

text \<open>
  Modelled from the spec: the identity of the marker that \<open>cm.setBookmark\<close> returns. A new
  marker object is distinct from every marker the editor holds.
\<close>

definition freshMarker :: "Editor \<Rightarrow> TextMarker" where
  "freshMarker cm = Suc (fold max (map fst (marks cm)) 0)"

text \<open>
  Modelled from the spec: \<open>cm.setBookmark({ line, ch }, { widget })\<close> of CodeMirror, the
  line-end bookmark placement with a caller-supplied widget; it adds a live bookmark and
  returns its marker.
\<close>

definition setBookmark :: "int \<Rightarrow> nat \<Rightarrow> Widget \<Rightarrow> Editor \<Rightarrow> TextMarker \<times> Editor" where
  "setBookmark l c widget cm =
     (let m = freshMarker cm
      in (m, cm\<lparr>marks := marks cm @ [(m, \<lparr>bmLine = l, bmCh = c, bmWidget = widget\<rparr>)]\<rparr>))"

text \<open>
  Modelled from the spec: \<open>marker.clear()\<close> of CodeMirror removes the bookmark from the
  editor; on a marker that is not live it does nothing.
\<close>

definition clear :: "TextMarker \<Rightarrow> Editor \<Rightarrow> Editor" where
  "clear m cm = cm\<lparr>marks := filter (\<lambda>e. fst e \<noteq> m) (marks cm)\<rparr>"

section \<open>Annotations\<close>

text \<open>
  Modelled from the spec: \<open>groupToMap\<close> (\<open>ts/helpers/group-to-map\<close>) is not among the
  sources. The spec groups by line, preserving encounter order within each group; the
  renderer iterates the result as a \<open>Map\<close>, whose iteration order is the order in which
  the keys were first inserted. The map is an association list in that order.
\<close>

fun groupInsert :: "'k \<Rightarrow> 'a \<Rightarrow> ('k \<times> 'a list) list \<Rightarrow> ('k \<times> 'a list) list" where
  "groupInsert k item [] = [(k, [item])]"
| "groupInsert k item ((k', items) # m) =
     (if k' = k then (k', items @ [item]) # m else (k', items) # groupInsert k item m)"

text \<open>
  Modelled from the spec: \<open>groupToMap(array, getKey)\<close>, one pass over the array that
  appends each item to the group of its key and inserts a new key at its first encounter.
\<close>

definition groupToMap :: "'a list \<Rightarrow> ('a \<Rightarrow> 'k) \<Rightarrow> ('k \<times> 'a list) list" where
  "groupToMap array getKey = foldl (\<lambda>m item. groupInsert (getKey item) item m) [] array"

text \<open>\<open>steps.filter(s => typeof s === 'object')\<close>\<close>

fun detailedSteps :: "Step list \<Rightarrow> FlowStep list" where
  "detailedSteps [] = []"
| "detailedSteps (Bare n # steps) = detailedSteps steps"
| "detailedSteps (Detailed s # steps) = s # detailedSteps steps"

text \<open>The two values of \<open>partName\<close>, and the property read \<open>s[partName]\<close>.\<close>

datatype PartName = Notes | Exception

fun partNameString :: "PartName \<Rightarrow> string" where
  "partNameString Notes = ''notes''"
| "partNameString Exception = ''exception''"

fun part :: "PartName \<Rightarrow> FlowStep \<Rightarrow> string option" where
  "part Notes s = notes' s"
| "part Exception s = exception s"

text \<open>\<open>text.replace(/c/g, r)\<close> for a single character \<open>c\<close>.\<close>

definition replaceAll :: "char \<Rightarrow> string \<Rightarrow> string \<Rightarrow> string" where
  "replaceAll c r text = concat (map (\<lambda>x. if x = c then r else [x]) text)"

definition CR :: char where "CR = CHR 0x0D"
definition LF :: char where "LF = CHR 0x0A"
definition backslash :: char where "backslash = CHR 0x5C"

text \<open>\<open>text.replace(/\r/g, '\\r').replace(/\n/g, '\\n')\<close>\<close>

definition escapeNewLines :: "string \<Rightarrow> string" where
  "escapeNewLines text =
     replaceAll LF [backslash, CHR ''n''] (replaceAll CR [backslash, CHR ''r''] text)"

text \<open>\<open>Array.prototype.join\<close> on strings.\<close>

fun join :: "string \<Rightarrow> string list \<Rightarrow> string" where
  "join sep [] = []"
| "join sep [x] = x"
| "join sep (x # y # ys) = x @ sep @ join sep (y # ys)"

definition createFlowLineEndWidget :: "string list \<Rightarrow> PartName \<Rightarrow> Widget" where
  "createFlowLineEndWidget contents kind =
     \<lparr>className = ''flow-line-end flow-line-end-'' @ partNameString kind,
      textContent = join ''; '' (map escapeNewLines contents)\<rparr>"

text \<open>\<open>details.map(s => s[partName]).filter(p => p) as ReadonlyArray<string>\<close>\<close>

definition partsOf :: "PartName \<Rightarrow> FlowStep list \<Rightarrow> string list" where
  "partsOf partName details = map the (filter truthy (map (part partName) details))"

text \<open>
  The inner loop \<open>for (const partName of ['notes', 'exception'])\<close>, on the editor and the
  \<open>bookmarks\<close> array.
\<close>

fun renderParts ::
  "PartName list \<Rightarrow> FlowStep list \<Rightarrow> int \<Rightarrow> nat \<Rightarrow> Editor \<times> TextMarker list
     \<Rightarrow> Editor \<times> TextMarker list" where
  "renderParts [] details cmLineNumber end' (cm, bookmarks) = (cm, bookmarks)"
| "renderParts (partName # rest) details cmLineNumber end' (cm, bookmarks) =
     (let parts = partsOf partName details
      in if length parts = 0 then renderParts rest details cmLineNumber end' (cm, bookmarks)
         else
           let widget = createFlowLineEndWidget parts partName;
               (m, cm') = setBookmark cmLineNumber end' widget cm
           in renderParts rest details cmLineNumber end' (cm', bookmarks @ [m]))"

text \<open>
  Reading \<open>.length\<close> of \<open>undefined\<close> throws a \<open>TypeError\<close>; what the editor and the array
  hold at that moment stays.
\<close>

datatype error = TypeError

text \<open>The outer loop \<open>for (const [lineNumber, details] of detailsByLine)\<close>.\<close>

fun renderLines ::
  "(int \<times> FlowStep list) list \<Rightarrow> Editor \<times> TextMarker list
     \<Rightarrow> error option \<times> Editor \<times> TextMarker list" where
  "renderLines [] (cm, bookmarks) = (None, cm, bookmarks)"
| "renderLines ((lineNumber, details) # rest) (cm, bookmarks) =
     (let cmLineNumber = lineNumber - 1
      in case getLine cm cmLineNumber of
           None \<Rightarrow> (Some TypeError, cm, bookmarks)
         | Some text \<Rightarrow>
             renderLines rest
               (renderParts [Notes, Exception] details cmLineNumber (length text) (cm, bookmarks)))"

text \<open>\<open>while (bookmarks.length > 0) bookmarks.pop()!.clear();\<close>\<close>

function clearBookmarks :: "Editor \<times> TextMarker list \<Rightarrow> Editor \<times> TextMarker list" where
  "clearBookmarks (cm, bookmarks) =
     (if length bookmarks > 0
      then clearBookmarks (clear (last bookmarks) cm, butlast bookmarks)
      else (cm, bookmarks))"
  by pat_completeness auto
termination
  by (relation "measure (\<lambda>(cm, bookmarks). length bookmarks)") auto

declare clearBookmarks.simps [simp del]

definition renderExecutionFlow ::
  "Step list \<Rightarrow> Editor \<Rightarrow> TextMarker list \<Rightarrow> error option \<times> Editor \<times> TextMarker list" where
  "renderExecutionFlow steps cm bookmarks =
     (let (cm1, bookmarks1) = clearBookmarks (cm, bookmarks);
          cm2 = setJumpArrows (computeJumpArrows steps) cm1
      in if length steps = 0 then (None, cm2, bookmarks1)
         else
           let detailsByLine = groupToMap (detailedSteps steps) line
           in renderLines detailsByLine (cm2, bookmarks1))"

section \<open>The component\<close>

text \<open>\<open>ServerOptions\<close>, from \<open>ts/types/server-options.ts\<close>.\<close>

datatype Optimize = Release | Debug

record ServerOptions =
  x_optimize :: Optimize
  x_target :: string
  x_no_cache :: "bool option"

text \<open>The props the connection logic reads.\<close>

record Props =
  initialText :: string
  initialCached :: bool
  serviceUrl :: string
  language :: "string option"
  serverOptions :: "ServerOptions option"

text \<open>The \<open>options\<close> object handed to \<open>mirrorsharp\<close>; the watchers assign to its fields.\<close>

record MirrorSharpOptions =
  optServiceUrl :: string
  optLanguage :: "string option"
  initialServerOptions :: "ServerOptions option"
  noInitialConnection :: bool

text \<open>
  What the component does to the widget library, as a trace: \<open>mirrorsharp(textarea, options)\<close>
  creates an instance from the options as they are at that moment, the others are methods
  of \<open>this.instance\<close>.
\<close>

datatype Call =
    Mirrorsharp MirrorSharpOptions
  | Connect
  | SetText string
  | SetLanguage string
  | SetServerOptions ServerOptions
  | Destroy

text \<open>The argument of a \<open>$emit\<close>: nothing, a value, or one of the two accessor closures.\<close>

datatype Payload =
    NoPayload
  | Result string
  | State string
  | GetText string
  | Message string
  | GetCursorOffset

record Component =
  initialConnectionRequested :: bool
  mirrorOptions :: MirrorSharpOptions
  calls :: "Call list"
  emitted :: "(string \<times> Payload) list"

text \<open>
  What the event loop delivers: the events the widget reports to \<open>options.on\<close>, the
  \<open>cursorActivity\<close> of the editor, and the changes of the watched props.
\<close>

datatype Event =
    SlowUpdateWait
  | SlowUpdateResult string
  | ConnectionChange string
  | TextChange string
  | ServerError string
  | CursorActivity
  | InitialTextChanged string
  | LanguageChanged string
  | ServerOptionsChanged ServerOptions
  | ServiceUrlChanged string

definition mounted :: "Props \<Rightarrow> Component" where
  "mounted props =
     (let options = \<lparr>optServiceUrl = serviceUrl props, optLanguage = language props,
                     initialServerOptions = serverOptions props,
                     noInitialConnection = initialCached props\<rparr>
      in \<lparr>initialConnectionRequested = \<not> initialCached props,
          mirrorOptions = options,
          calls = [Mirrorsharp options],
          emitted = []\<rparr>)"

definition connectIfInitialWasCached :: "Component \<Rightarrow> Component" where
  "connectIfInitialWasCached c =
     (if initialConnectionRequested c then c
      else c\<lparr>calls := calls c @ [Connect], initialConnectionRequested := True\<rparr>)"

definition emit :: "string \<Rightarrow> Payload \<Rightarrow> Component \<Rightarrow> Component" where
  "emit name payload c = c\<lparr>emitted := emitted c @ [(name, payload)]\<rparr>"

definition call :: "Call \<Rightarrow> Component \<Rightarrow> Component" where
  "call x c = c\<lparr>calls := calls c @ [x]\<rparr>"

definition recreate :: "Component \<Rightarrow> Component" where
  "recreate c =
     (let c1 = call Destroy c;
          options = (mirrorOptions c1)\<lparr>noInitialConnection := False\<rparr>;
          c2 = c1\<lparr>mirrorOptions := options, initialConnectionRequested := True\<rparr>
      in call (Mirrorsharp options) c2)"

text \<open>
  The handlers of \<open>options.on\<close> and of \<open>cm.on('cursorActivity')\<close>, and the watchers.

  Modelled from the spec: the instance is mirrorsharp's, which is not among the sources.
  The spec has a change of the initial text propagate as a full text replacement:
  \<open>instance.setText(v)\<close> replaces the text of the editor, and the widget reports the
  replacement to \<open>options.on.textChange\<close> before \<open>setText\<close> returns, so the watcher of
  \<open>initialText\<close> runs the \<open>textChange\<close> handler too. The other methods of the instance
  are recorded in the trace and report nothing back.
\<close>

fun handle :: "Event \<Rightarrow> Component \<Rightarrow> Component" where
  "handle SlowUpdateWait c = emit ''slow-update-wait'' NoPayload c"
| "handle (SlowUpdateResult result) c = emit ''slow-update-result'' (Result result) c"
| "handle (ConnectionChange type) c = emit ''connection-change'' (State type) c"
| "handle (TextChange getText) c =
     emit ''text-change'' (GetText getText) (connectIfInitialWasCached c)"
| "handle (ServerError message) c = emit ''server-error'' (Message message) c"
| "handle CursorActivity c = emit ''cursor-move'' GetCursorOffset c"
| "handle (InitialTextChanged v) c =
     emit ''text-change'' (GetText v) (connectIfInitialWasCached (call (SetText v) c))"
| "handle (LanguageChanged l) c =
     connectIfInitialWasCached
       (call (SetLanguage l) (c\<lparr>mirrorOptions := (mirrorOptions c)\<lparr>optLanguage := Some l\<rparr>\<rparr>))"
| "handle (ServerOptionsChanged opts) c =
     connectIfInitialWasCached
       (call (SetServerOptions opts)
          (c\<lparr>mirrorOptions := (mirrorOptions c)\<lparr>initialServerOptions := Some opts\<rparr>\<rparr>))"
| "handle (ServiceUrlChanged u) c =
     recreate (c\<lparr>mirrorOptions := (mirrorOptions c)\<lparr>optServiceUrl := u\<rparr>\<rparr>)"

text \<open>The event loop delivers the events one after the other.\<close>

fun run :: "Event list \<Rightarrow> Component \<Rightarrow> Component" where
  "run [] c = c"
| "run (e # es) c = run es (handle e c)"

section \<open>Notions the properties are stated with\<close>

text \<open>The retained steps of a sequence: the line and the exception of each non-skipped step.\<close>

definition stepInfo :: "Step \<Rightarrow> int \<times> string option" where
  "stepInfo step = (stepLineNumber step, stepException step)"

definition retained :: "Step list \<Rightarrow> (int \<times> string option) list" where
  "retained steps = map stepInfo (filter (\<lambda>step. \<not> stepSkipped step) steps)"

text \<open>
  A transition from a retained step to the next one is significant when the line goes
  back, or goes forward by more than 2, or the earlier step raised.
\<close>

fun significant :: "(int \<times> string option) \<times> (int \<times> string option) \<Rightarrow> bool" where
  "significant ((l0, e0), (l1, e1)) = (l1 < l0 \<or> l1 - l0 > 2 \<or> truthy e0)"

fun arrowBetween :: "(int \<times> string option) \<times> (int \<times> string option) \<Rightarrow> JumpArrow" where
  "arrowBetween ((l0, e0), (l1, e1)) =
     \<lparr>fromLine = Some (l0 - 1), toLine = l1 - 1, options = \<lparr>throw = truthy e0\<rparr>\<rparr>"

text \<open>Lines that strictly increase by at most 2, with no truthy exception.\<close>

fun steady :: "(int \<times> string option) list \<Rightarrow> bool" where
  "steady [] = True"
| "steady [(l, e)] = (\<not> truthy e)"
| "steady ((l0, e0) # (l1, e1) # rest) =
     (\<not> truthy e0 \<and> l0 < l1 \<and> l1 - l0 \<le> 2 \<and> steady ((l1, e1) # rest))"

text \<open>
  The annotations an array of markers stands for: the bookmark of each marker that is
  live in the editor, in the order of the array.
\<close>

definition annotations :: "Editor \<Rightarrow> TextMarker list \<Rightarrow> Bookmark list" where
  "annotations cm bookmarks = List.map_filter (map_of (marks cm)) bookmarks"

text \<open>What the editor shows: the arrow layer and the live bookmarks, without their identity.\<close>

definition decorations :: "Editor \<Rightarrow> JumpArrow list \<times> Bookmark list" where
  "decorations cm = (arrowLayer cm, map snd (marks cm))"

text \<open>
  The non-empty values of one field on one line, in encounter order: bare steps have none.
\<close>

fun fieldValues :: "PartName \<Rightarrow> int \<Rightarrow> Step list \<Rightarrow> string list" where
  "fieldValues p ln [] = []"
| "fieldValues p ln (Bare n # steps) = fieldValues p ln steps"
| "fieldValues p ln (Detailed s # steps) =
     (case part p s of
        None \<Rightarrow> fieldValues p ln steps
      | Some v \<Rightarrow>
          if line s = ln \<and> v \<noteq> [] then v # fieldValues p ln steps
          else fieldValues p ln steps)"

text \<open>
  Every carriage return becomes backslash, r and every line feed backslash, n, in one
  pass over the text.
\<close>

definition escaped :: "string \<Rightarrow> string" where
  "escaped text =
     concat (map (\<lambda>c. if c = CR then [backslash, CHR ''r'']
                       else if c = LF then [backslash, CHR ''n''] else [c]) text)"

text \<open>The fragment of a field on a line: absent when the field has no value there.\<close>

definition fragment :: "PartName \<Rightarrow> int \<Rightarrow> Step list \<Rightarrow> string option" where
  "fragment p ln steps =
     (let vs = fieldValues p ln steps
      in if vs = [] then None else Some (join ''; '' (map escaped vs)))"

text \<open>The elements of a list in the order of their first occurrence.\<close>

fun firstEncounters :: "'a list \<Rightarrow> 'a list" where
  "firstEncounters [] = []"
| "firstEncounters (x # xs) = x # filter (\<lambda>y. y \<noteq> x) (firstEncounters xs)"

text \<open>The lines of the detailed steps of a sequence, in order.\<close>

fun detailedLines :: "Step list \<Rightarrow> int list" where
  "detailedLines [] = []"
| "detailedLines (Bare n # steps) = detailedLines steps"
| "detailedLines (Detailed s # steps) = line s # detailedLines steps"

text \<open>The class of the widget of a field.\<close>

fun widgetClass :: "PartName \<Rightarrow> string" where
  "widgetClass Notes = ''flow-line-end flow-line-end-notes''"
| "widgetClass Exception = ''flow-line-end flow-line-end-exception''"

text \<open>
  The connect calls in a trace; the events whose handling reaches
  \<open>connectIfInitialWasCached\<close>: a text change reported by the widget (an edit, or the
  replacement of the text after a change of the initial text), a language change and a
  server-options change; and the event that recreates the instance.
\<close>

definition connects :: "Component \<Rightarrow> nat" where
  "connects c = length (filter (\<lambda>x. x = Connect) (calls c))"

fun isTrigger :: "Event \<Rightarrow> bool" where
  "isTrigger (TextChange g) = True"
| "isTrigger (InitialTextChanged v) = True"
| "isTrigger (LanguageChanged l) = True"
| "isTrigger (ServerOptionsChanged opts) = True"
| "isTrigger e = False"

fun isRecreate :: "Event \<Rightarrow> bool" where
  "isRecreate (ServiceUrlChanged u) = True"
| "isRecreate e = False"

section \<open>Notions the proofs are structured with\<close>

text \<open>The arrows of the significant transitions between neighbours of a list.\<close>

definition pairArrows :: "(int \<times> string option) list \<Rightarrow> JumpArrow list" where
  "pairArrows r = map arrowBetween (filter significant (zip r (tl r)))"

text \<open>
  The largest marker of the editor, the markers a run of \<open>k\<close> placements creates, and the
  placement of a list of bookmarks: \<open>setBookmark\<close> and \<open>push\<close> for each.
\<close>

definition maxMarker :: "Editor \<Rightarrow> nat" where
  "maxMarker cm = fold max (map fst (marks cm)) 0"

definition newMarkers :: "Editor \<Rightarrow> nat \<Rightarrow> TextMarker list" where
  "newMarkers cm k = [Suc (maxMarker cm) ..< Suc (maxMarker cm) + k]"

fun place :: "Bookmark list \<Rightarrow> Editor \<times> TextMarker list \<Rightarrow> Editor \<times> TextMarker list" where
  "place [] (cm, bookmarks) = (cm, bookmarks)"
| "place (b # bs) (cm, bookmarks) =
     place bs (snd (setBookmark (bmLine b) (bmCh b) (bmWidget b) cm),
               bookmarks @ [fst (setBookmark (bmLine b) (bmCh b) (bmWidget b) cm)])"

text \<open>The bookmarks the inner loop places for one line, and the outer loop for all lines.\<close>

fun planParts :: "PartName list \<Rightarrow> FlowStep list \<Rightarrow> int \<Rightarrow> nat \<Rightarrow> Bookmark list" where
  "planParts [] details l c = []"
| "planParts (p # rest) details l c =
     (if partsOf p details = [] then []
      else [\<lparr>bmLine = l, bmCh = c, bmWidget = createFlowLineEndWidget (partsOf p details) p\<rparr>])
     @ planParts rest details l c"

text \<open>The 1-based line \<open>ln\<close> exists in the document.\<close>

definition lineExists :: "string list \<Rightarrow> int \<Rightarrow> bool" where
  "lineExists doc ln = (1 \<le> ln \<and> ln \<le> int (length doc))"

definition planLine :: "string list \<Rightarrow> int \<times> FlowStep list \<Rightarrow> Bookmark list" where
  "planLine doc g =
     planParts [Notes, Exception] (snd g) (fst g - 1) (length (doc ! nat (fst g - 1)))"

definition planLines :: "string list \<Rightarrow> (int \<times> FlowStep list) list \<Rightarrow> Bookmark list" where
  "planLines doc groups = concat (map (planLine doc) groups)"

text \<open>
  The editor after the bookmarks of the array are cleared and the arrow layer is replaced,
  and the lines the outer loop reaches: those before the first line the document lacks.
\<close>

definition cleared :: "Step list \<Rightarrow> Editor \<Rightarrow> TextMarker list \<Rightarrow> Editor" where
  "cleared steps cm bookmarks =
     cm\<lparr>marks := filter (\<lambda>e. fst e \<notin> set bookmarks) (marks cm),
        arrowLayer := computeJumpArrows steps\<rparr>"

definition renderedLines :: "Step list \<Rightarrow> string list \<Rightarrow> (int \<times> FlowStep list) list" where
  "renderedLines steps doc =
     takeWhile (\<lambda>g. lineExists doc (fst g)) (groupToMap (detailedSteps steps) line)"

text \<open>The bookmark of a field on a line, if the field has a fragment there.\<close>

definition fragmentBookmarks :: "string list \<Rightarrow> Step list \<Rightarrow> PartName \<Rightarrow> int \<Rightarrow> Bookmark list" where
  "fragmentBookmarks doc steps p ln =
     (case fragment p ln steps of
        None \<Rightarrow> []
      | Some t \<Rightarrow>
          [\<lparr>bmLine = ln - 1, bmCh = length (doc ! nat (ln - 1)),
            bmWidget = \<lparr>className = widgetClass p, textContent = t\<rparr>\<rparr>])"

section \<open>Sample inputs\<close>

text \<open>
  A document of three lines with an old annotation (marker 4) and a bookmark of someone
  else (marker 9); the spec's sequence with a skipped step; a sequence with two detailed
  steps on line 3 and one on line 1; and the props of a component mounted from the cache.
\<close>

definition sampleEditor :: Editor where
  "sampleEditor =
     \<lparr>document = [''ab'', ''cde'', ''f''],
      arrowLayer = [\<lparr>fromLine = Some 5, toLine = 0, options = \<lparr>throw = False\<rparr>\<rparr>],
      marks = [(4, \<lparr>bmLine = 0, bmCh = 2,
                    bmWidget = \<lparr>className = ''flow-line-end flow-line-end-notes'',
                                textContent = ''old''\<rparr>\<rparr>),
               (9, \<lparr>bmLine = 1, bmCh = 0,
                    bmWidget = \<lparr>className = ''other'', textContent = ''kept''\<rparr>\<rparr>)]\<rparr>"

definition sampleSteps :: "Step list" where
  "sampleSteps =
     [Bare 1,
      Detailed \<lparr>line = 2, skipped = True, exception = None, notes' = Some ''n''\<rparr>,
      Bare 3]"

definition sampleNotes :: "Step list" where
  "sampleNotes =
     [Detailed \<lparr>line = 3, skipped = False, exception = None, notes' = Some ''a''\<rparr>,
      Bare 1,
      Detailed \<lparr>line = 3, skipped = False, exception = Some ''E'', notes' = Some [CHR ''b'', LF]\<rparr>,
      Detailed \<lparr>line = 1, skipped = False, exception = Some ''F'', notes' = Some []\<rparr>]"

definition sampleProps :: Props where
  "sampleProps =
     \<lparr>initialText = ''class C {}'', initialCached = True, serviceUrl = ''wss://host/a'',
      language = Some ''C#'', serverOptions = None\<rparr>"

section \<open>The arrow scan\<close>

lemma scanStep_skipped: "stepSkipped step \<Longrightarrow> scanStep step st = st"
  by (simp add: scanStep_def)

lemma scanSteps_filter:
  "scanSteps (filter (\<lambda>step. \<not> stepSkipped step) steps) st = scanSteps steps st"
  by (induction steps arbitrary: st) (simp_all add: scanStep_skipped)

lemma scan_from_some:
  "lastLineNumber st = Some l \<Longrightarrow>
   jumpArrows (scanSteps steps st) =
     jumpArrows st @ pairArrows ((l, lastException st) # retained steps)"
proof (induction steps arbitrary: st l)
  case Nil
  then show ?case by (simp add: pairArrows_def retained_def)
next
  case (Cons step steps)
  show ?case
  proof (cases "stepSkipped step")
    case True
    with Cons show ?thesis by (simp add: scanStep_skipped retained_def)
  next
    case False
    let ?st' = "scanStep step st"
    have l': "lastLineNumber ?st' = Some (stepLineNumber step)"
      using False by (simp add: scanStep_def Let_def)
    have e': "lastException ?st' = stepException step"
      using False by (simp add: scanStep_def Let_def)
    have a': "jumpArrows ?st' = jumpArrows st @
        (if significant ((l, lastException st), stepInfo step)
         then [arrowBetween ((l, lastException st), stepInfo step)] else [])"
      using False Cons.prems
      by (simp add: scanStep_def Let_def important_def stepInfo_def)
    have r: "retained (step # steps) = stepInfo step # retained steps"
      using False by (simp add: retained_def)
    show ?thesis
      using Cons.IH[OF l'] 
      by (simp add: a' e' r pairArrows_def stepInfo_def)
  qed
qed

lemma scan_from_none:
  "lastLineNumber st = None \<Longrightarrow> \<not> truthy (lastException st) \<Longrightarrow>
   jumpArrows (scanSteps steps st) = jumpArrows st @ pairArrows (retained steps)"
proof (induction steps arbitrary: st)
  case Nil
  then show ?case by (simp add: pairArrows_def retained_def)
next
  case (Cons step steps)
  show ?case
  proof (cases "stepSkipped step")
    case True
    with Cons show ?thesis by (simp add: scanStep_skipped retained_def)
  next
    case False
    let ?st' = "scanStep step st"
    have l': "lastLineNumber ?st' = Some (stepLineNumber step)"
      using False by (simp add: scanStep_def Let_def)
    have e': "lastException ?st' = stepException step"
      using False by (simp add: scanStep_def Let_def)
    have a': "jumpArrows ?st' = jumpArrows st"
      using False Cons.prems by (simp add: scanStep_def Let_def important_def)
    have r: "retained (step # steps) = stepInfo step # retained steps"
      using False by (simp add: retained_def)
    show ?thesis
      using scan_from_some[OF l', of steps]
      by (simp add: a' e' r stepInfo_def)
  qed
qed

lemma computeJumpArrows_pairs: "computeJumpArrows steps = pairArrows (retained steps)"
  using scan_from_none[of initialScan steps]
  by (simp add: computeJumpArrows_def initialScan_def truthy_def)

lemma steady_no_pairs: "steady r \<Longrightarrow> filter significant (zip r (tl r)) = []"
  by (induction r rule: steady.induct) auto

lemma retained_append: "retained (xs @ ys) = retained xs @ retained ys"
  by (simp add: retained_def)

lemma retained_all_skipped: "\<forall>p\<in>set pre. stepSkipped p \<Longrightarrow> retained pre = []"
  by (induction pre) (simp_all add: retained_def)

lemma scan_invariant:
  "(truthy (lastException st) \<longrightarrow> lastLineNumber st \<noteq> None) \<Longrightarrow>
   (\<forall>a\<in>set (jumpArrows st). fromLine a \<noteq> None) \<Longrightarrow>
   (truthy (lastException (scanSteps steps st)) \<longrightarrow> lastLineNumber (scanSteps steps st) \<noteq> None)
   \<and> (\<forall>a\<in>set (jumpArrows (scanSteps steps st)). fromLine a \<noteq> None)"
proof (induction steps arbitrary: st)
  case Nil
  then show ?case by simp
next
  case (Cons step steps)
  show ?case
    unfolding scanSteps.simps
  proof (rule Cons.IH)
    show "truthy (lastException (scanStep step st)) \<longrightarrow> lastLineNumber (scanStep step st) \<noteq> None"
      using Cons.prems(1) by (simp add: scanStep_def Let_def)
    show "\<forall>a\<in>set (jumpArrows (scanStep step st)). fromLine a \<noteq> None"
      using Cons.prems by (auto simp: scanStep_def Let_def important_def split: option.splits)
  qed
qed

text \<open>
  C1 (as amended). Scanning the non-skipped steps from left to right, the arrows are those
  of the significant transitions between one retained step and the next, in order: an
  arrow is emitted at a step exactly when an earlier retained step exists and the line is
  less than that step's line, or exceeds it by more than 2, or that step's exception is
  truthy; it goes from the earlier line minus 1 to the current line minus 1 and is
  exceptional iff the earlier exception is truthy. So no arrow is emitted up to and
  including the first retained step, and a sequence whose retained steps have lines that
  strictly increase by at most 2 and no truthy exception yields no arrow.
\<close>

theorem jump_arrows_of_retained_transitions:
  "computeJumpArrows steps =
     map arrowBetween (filter significant (zip (retained steps) (tl (retained steps))))
   \<and> ((\<forall>p\<in>set pre. stepSkipped p) \<longrightarrow> computeJumpArrows (pre @ [s]) = [])
   \<and> (steady (retained steps) \<longrightarrow> computeJumpArrows steps = [])"
proof (intro conjI impI)
  show "computeJumpArrows steps =
     map arrowBetween (filter significant (zip (retained steps) (tl (retained steps))))"
    by (simp add: computeJumpArrows_pairs pairArrows_def)
next
  assume "\<forall>p\<in>set pre. stepSkipped p"
  then have "retained (pre @ [s]) = retained [s]"
    by (simp add: retained_append retained_all_skipped)
  then show "computeJumpArrows (pre @ [s]) = []"
    by (simp add: computeJumpArrows_pairs pairArrows_def retained_def)
next
  assume "steady (retained steps)"
  then show "computeJumpArrows steps = []"
    by (simp add: computeJumpArrows_pairs pairArrows_def steady_no_pairs)
qed

theorem jump_arrows_of_retained_transitions_witness:
  "stepSkipped (Detailed \<lparr>line = 7, skipped = True, exception = Some ''E'', notes' = None\<rparr>)
   \<and> computeJumpArrows
       [Detailed \<lparr>line = 7, skipped = True, exception = Some ''E'', notes' = None\<rparr>, Bare 9] = []
   \<and> steady (retained
       [Bare 1, Detailed \<lparr>line = 7, skipped = True, exception = Some ''E'', notes' = None\<rparr>,
        Bare 3, Bare 4])
   \<and> computeJumpArrows
       [Bare 1, Detailed \<lparr>line = 7, skipped = True, exception = Some ''E'', notes' = None\<rparr>,
        Bare 3, Bare 4] = []"
  using jump_arrows_of_retained_transitions
    [of "[Bare 1, Detailed \<lparr>line = 7, skipped = True, exception = Some ''E'', notes' = None\<rparr>,
          Bare 3, Bare 4]"
        "[Detailed \<lparr>line = 7, skipped = True, exception = Some ''E'', notes' = None\<rparr>]"
        "Bare 9"]
  by (simp add: retained_def stepInfo_def truthy_def)

text \<open>
  The lines 1, 3, 5 strictly increase by 2 and no step has an exception, but the step on
  line 3 is skipped: the scan sees 1 and then 5, and emits an arrow.
\<close>

theorem steady_lines_around_skipped_step_counterexample:
  "steady (map stepInfo
     [Bare 1, Detailed \<lparr>line = 3, skipped = True, exception = None, notes' = None\<rparr>, Bare 5])
   \<and> computeJumpArrows
       [Bare 1, Detailed \<lparr>line = 3, skipped = True, exception = None, notes' = None\<rparr>, Bare 5]
     = [\<lparr>fromLine = Some 0, toLine = 4, options = \<lparr>throw = False\<rparr>\<rparr>]"
  by (simp add: stepInfo_def truthy_def computeJumpArrows_def initialScan_def scanStep_def
      important_def)

text \<open>
  C8. After any prefix of the steps, a truthy \<open>lastException\<close> comes with a defined
  \<open>lastLineNumber\<close>; so whenever the significance condition holds for the next line,
  also when only through the exception, \<open>lastLineNumber\<close> is defined, and every emitted
  arrow has a defined \<open>fromLine\<close>.
\<close>

theorem significant_step_has_last_line:
  "(truthy (lastException (scanSteps pre initialScan))
      \<longrightarrow> lastLineNumber (scanSteps pre initialScan) \<noteq> None)
   \<and> (important (lastLineNumber (scanSteps pre initialScan))
         (lastException (scanSteps pre initialScan)) n
      \<longrightarrow> lastLineNumber (scanSteps pre initialScan) \<noteq> None)
   \<and> (\<forall>a\<in>set (computeJumpArrows pre). fromLine a \<noteq> None)"
proof -
  have inv: "(truthy (lastException (scanSteps pre initialScan))
      \<longrightarrow> lastLineNumber (scanSteps pre initialScan) \<noteq> None)
     \<and> (\<forall>a\<in>set (jumpArrows (scanSteps pre initialScan)). fromLine a \<noteq> None)"
    by (rule scan_invariant) (simp_all add: initialScan_def truthy_def)
  then show ?thesis
    by (auto simp: computeJumpArrows_def important_def split: option.splits)
qed

theorem significant_step_has_last_line_witness:
  "truthy (lastException (scanSteps
      [Detailed \<lparr>line = 3, skipped = False, exception = Some ''E'', notes' = None\<rparr>] initialScan))
   \<and> important
       (lastLineNumber (scanSteps
          [Detailed \<lparr>line = 3, skipped = False, exception = Some ''E'', notes' = None\<rparr>]
          initialScan))
       (lastException (scanSteps
          [Detailed \<lparr>line = 3, skipped = False, exception = Some ''E'', notes' = None\<rparr>]
          initialScan)) 4
   \<and> lastLineNumber (scanSteps
        [Detailed \<lparr>line = 3, skipped = False, exception = Some ''E'', notes' = None\<rparr>]
        initialScan) \<noteq> None
   \<and> map fromLine (computeJumpArrows
        [Detailed \<lparr>line = 3, skipped = False, exception = Some ''E'', notes' = None\<rparr>, Bare 4])
      = [Some 2]"
  using significant_step_has_last_line
    [of "[Detailed \<lparr>line = 3, skipped = False, exception = Some ''E'', notes' = None\<rparr>]" 4]
    significant_step_has_last_line
    [of "[Detailed \<lparr>line = 3, skipped = False, exception = Some ''E'', notes' = None\<rparr>, Bare 4]" 0]
  by (simp add: initialScan_def scanStep_def important_def truthy_def computeJumpArrows_def)

section \<open>Placing and clearing bookmarks\<close>

lemma fold_max_ge: "a \<le> fold max xs (a::nat)"
  by (induction xs arbitrary: a) (auto intro: order_trans[OF max.cobounded2])

lemma fold_max_mem: "x \<in> set xs \<Longrightarrow> x \<le> fold max xs (a::nat)"
proof (induction xs arbitrary: a)
  case Nil then show ?case by simp
next
  case (Cons y ys)
  show ?case
  proof (cases "x = y")
    case True
    have "max y a \<le> fold max ys (max y a)" by (rule fold_max_ge)
    then show ?thesis using True by simp
  next
    case False
    with Cons show ?thesis by simp
  qed
qed

lemma marks_le_maxMarker: "e \<in> set (marks cm) \<Longrightarrow> fst e \<le> maxMarker cm"
  unfolding maxMarker_def by (rule fold_max_mem) simp

lemma clearBookmarks_eq:
  "clearBookmarks (cm, bookmarks) =
     (cm\<lparr>marks := filter (\<lambda>e. fst e \<notin> set bookmarks) (marks cm)\<rparr>, [])"
proof (induction bookmarks arbitrary: cm rule: rev_induct)
  case Nil
  then show ?case by (subst clearBookmarks.simps) simp
next
  case (snoc m ms)
  have "clearBookmarks (cm, ms @ [m]) = clearBookmarks (clear m cm, ms)"
    by (subst clearBookmarks.simps) simp
  also have "\<dots> = ((clear m cm)\<lparr>marks := filter (\<lambda>e. fst e \<notin> set ms) (marks (clear m cm))\<rparr>, [])"
    by (rule snoc.IH)
  also have "\<dots> = (cm\<lparr>marks := filter (\<lambda>e. fst e \<notin> set (ms @ [m])) (marks cm)\<rparr>, [])"
    by (auto simp: clear_def intro: filter_cong)
  finally show ?case .
qed

lemma place_eq:
  "place bs (cm, bookmarks) =
     (cm\<lparr>marks := marks cm @ zip (newMarkers cm (length bs)) bs\<rparr>,
      bookmarks @ newMarkers cm (length bs))"
proof (induction bs arbitrary: cm bookmarks)
  case Nil
  then show ?case by (simp add: newMarkers_def)
next
  case (Cons b bs)
  let ?m = "Suc (maxMarker cm)"
  let ?cm' = "cm\<lparr>marks := marks cm @ [(?m, b)]\<rparr>"
  have sb: "setBookmark (bmLine b) (bmCh b) (bmWidget b) cm = (?m, ?cm')"
    by (simp add: setBookmark_def freshMarker_def maxMarker_def Let_def)
  have mx: "maxMarker ?cm' = ?m"
    by (simp add: maxMarker_def)
  have ids: "newMarkers cm (Suc (length bs)) = ?m # newMarkers ?cm' (length bs)"
    unfolding newMarkers_def mx by (subst upt_rec) simp
  show ?case
    by (simp add: sb Cons.IH ids)
qed

lemma renderParts_place:
  "renderParts ps details l c (cm, bookmarks) = place (planParts ps details l c) (cm, bookmarks)"
  by (induction ps arbitrary: cm bookmarks) (simp_all add: Let_def split: prod.splits)

lemma place_append: "place (as @ bs) w = place bs (place as w)"
  by (induction as arbitrary: w) (auto split: prod.splits)

lemma document_place: "document (fst (place bs w)) = document (fst w)"
  by (cases w) (simp add: place_eq)

lemma getLine_exists:
  "getLine cm (ln - 1) =
     (if lineExists (document cm) ln then Some (document cm ! nat (ln - 1)) else None)"
  by (auto simp: getLine_def lineExists_def)

lemma renderLines_eq:
  "renderLines groups w =
     (if list_all (\<lambda>g. lineExists (document (fst w)) (fst g)) groups then None else Some TypeError,
      place (planLines (document (fst w))
               (takeWhile (\<lambda>g. lineExists (document (fst w)) (fst g)) groups)) w)"
proof (induction groups arbitrary: w)
  case Nil
  then show ?case by (cases w) (simp add: planLines_def)
next
  case (Cons g groups)
  obtain cm bookmarks where w: "w = (cm, bookmarks)" by (cases w)
  obtain lineNumber details where g: "g = (lineNumber, details)" by (cases g)
  show ?case
  proof (cases "lineExists (document cm) lineNumber")
    case False
    then show ?thesis by (simp add: w g getLine_exists planLines_def)
  next
    case True
    let ?w' = "place (planLine (document cm) g) w"
    have d: "document (fst ?w') = document cm" by (simp add: document_place w)
    have step: "renderLines (g # groups) w = renderLines groups ?w'"
      using True by (simp add: w g getLine_exists renderParts_place planLine_def Let_def)
    have ih: "renderLines groups ?w' =
        (if list_all (\<lambda>g. lineExists (document cm) (fst g)) groups then None else Some TypeError,
         place (planLines (document cm)
                  (takeWhile (\<lambda>g. lineExists (document cm) (fst g)) groups)) ?w')"
      by (subst Cons.IH) (simp only: d)
    show ?thesis
      unfolding step ih using True by (simp add: w g planLines_def place_append)
  qed
qed

section \<open>Grouping by line\<close>

lemma groupToMap_snoc: "groupToMap (xs @ [x]) f = groupInsert (f x) x (groupToMap xs f)"
  by (simp add: groupToMap_def)

lemma set_firstEncounters: "set (firstEncounters xs) = set xs"
  by (induction xs) auto

lemma distinct_firstEncounters: "distinct (firstEncounters xs)"
  by (induction xs) simp_all

lemma firstEncounters_snoc:
  "firstEncounters (xs @ [x]) =
     (if x \<in> set xs then firstEncounters xs else firstEncounters xs @ [x])"
  by (induction xs) auto

lemma groupInsert_map:
  "distinct ks \<Longrightarrow>
   groupInsert k v (map (\<lambda>k'. (k', g k')) ks) =
     (if k \<in> set ks then map (\<lambda>k'. (k', if k' = k then g k' @ [v] else g k')) ks
      else map (\<lambda>k'. (k', g k')) ks @ [(k, [v])])"
  by (induction ks) auto

lemma groupToMap_eq:
  "groupToMap xs f = map (\<lambda>k. (k, filter (\<lambda>x. f x = k) xs)) (firstEncounters (map f xs))"
proof (induction xs rule: rev_induct)
  case Nil
  then show ?case by (simp add: groupToMap_def)
next
  case (snoc x xs)
  let ?ks = "firstEncounters (map f xs)"
  have ins: "groupToMap (xs @ [x]) f =
      groupInsert (f x) x (map (\<lambda>k. (k, filter (\<lambda>x. f x = k) xs)) ?ks)"
    by (simp add: groupToMap_snoc snoc.IH)
  show ?case
  proof (cases "f x \<in> set ?ks")
    case True
    then have "f x \<in> f ` set xs" by (simp add: set_firstEncounters)
    then have fe: "firstEncounters (map f (xs @ [x])) = ?ks"
      by (simp add: firstEncounters_snoc)
    show ?thesis
      unfolding ins fe using True
      by (simp add: groupInsert_map[OF distinct_firstEncounters])
  next
    case False
    then have nin: "f x \<notin> f ` set xs" by (simp add: set_firstEncounters)
    then have fe: "firstEncounters (map f (xs @ [x])) = ?ks @ [f x]"
      by (simp add: firstEncounters_snoc)
    have empty: "filter (\<lambda>y. f y = f x) xs = []"
      using nin by (simp only: filter_empty_conv) (metis imageI)
    have other: "\<And>k. k \<in> set ?ks \<Longrightarrow> f x \<noteq> k"
      using False by auto
    show ?thesis
      unfolding ins fe using False other
      by (simp add: groupInsert_map[OF distinct_firstEncounters] empty)
  qed
qed

lemma map_filter_cong_set:
  "(\<And>x. x \<in> set xs \<Longrightarrow> f x = g x) \<Longrightarrow> List.map_filter f xs = List.map_filter g xs"
  by (induction xs) (simp_all add: map_filter_simps split: option.splits)

lemma map_filter_map_of_zip:
  "length xs = length ys \<Longrightarrow> distinct xs \<Longrightarrow> List.map_filter (map_of (zip xs ys)) xs = ys"
proof (induction xs ys rule: list_induct2)
  case Nil
  then show ?case by (simp add: map_filter_simps)
next
  case (Cons x xs y ys)
  let ?f = "map_of (zip (x # xs) (y # ys))"
  have tail: "List.map_filter ?f xs = List.map_filter (map_of (zip xs ys)) xs"
    using Cons.prems by (intro map_filter_cong_set) auto
  have ih: "List.map_filter (map_of (zip xs ys)) xs = ys"
    using Cons by simp
  have "?f x = Some y" by simp
  then have "List.map_filter ?f (x # xs) = y # List.map_filter ?f xs"
    by (simp only: map_filter_simps option.case)
  then show ?case by (simp only: tail ih)
qed

lemma length_newMarkers: "length (newMarkers cm k) = k"
  by (simp only: newMarkers_def length_upt add_diff_cancel_left')

lemma distinct_newMarkers: "distinct (newMarkers cm k)"
  by (simp only: newMarkers_def distinct_upt)

lemma newMarkers_above: "m \<in> set (newMarkers cm k) \<Longrightarrow> maxMarker cm < m"
  by (simp only: newMarkers_def set_upt atLeastLessThan_iff) arith

lemma newMarkers_not_marked:
  "e \<in> set (marks cm) \<Longrightarrow> fst e \<notin> set (newMarkers cm k)"
  using marks_le_maxMarker[of e cm] newMarkers_above[of "fst e" cm k] by auto

lemma newMarkers_fresh: "m \<in> set (newMarkers cm k) \<Longrightarrow> map_of (marks cm) m = None"
  using newMarkers_not_marked[of _ cm k] by (force simp: map_of_eq_None_iff)

lemma annotations_placed:
  "annotations (cm\<lparr>marks := marks cm @ zip (newMarkers cm (length bs)) bs\<rparr>)
     (newMarkers cm (length bs)) = bs"
proof -
  let ?ids = "newMarkers cm (length bs)"
  have "List.map_filter (map_of (marks cm @ zip ?ids bs)) ?ids
        = List.map_filter (map_of (zip ?ids bs)) ?ids"
    by (intro map_filter_cong_set) (simp add: map_add_def newMarkers_fresh)
  also have "\<dots> = bs"
    by (rule map_filter_map_of_zip) (simp_all only: length_newMarkers distinct_newMarkers)
  finally show ?thesis by (simp add: annotations_def)
qed

lemma filter_marks_old:
  "filter (\<lambda>e. fst e \<notin> set (newMarkers cm k)) (marks cm) = marks cm"
  by (rule filter_True) (simp add: newMarkers_not_marked)

lemma filter_marks_new:
  "filter (\<lambda>e. fst e \<notin> set ids) (zip ids bs) = []"
  by (auto simp: filter_empty_conv dest: set_zip_leftD)

lemma renderExecutionFlow_eq:
  "renderExecutionFlow steps cm bookmarks =
     (if list_all (\<lambda>g. lineExists (document cm) (fst g)) (groupToMap (detailedSteps steps) line)
      then None else Some TypeError,
      place (planLines (document cm) (renderedLines steps (document cm)))
        (cleared steps cm bookmarks, []))"
proof (cases "steps = []")
  case True
  then show ?thesis
    by (simp add: renderExecutionFlow_def clearBookmarks_eq setJumpArrows_def cleared_def
        renderedLines_def groupToMap_def planLines_def)
next
  case False
  then show ?thesis
    by (simp add: renderExecutionFlow_def clearBookmarks_eq setJumpArrows_def cleared_def
        renderedLines_def renderLines_eq)
qed

lemma renderExecutionFlow_marks:
  "renderExecutionFlow steps cm bookmarks =
     (if list_all (\<lambda>g. lineExists (document cm) (fst g)) (groupToMap (detailedSteps steps) line)
      then None else Some TypeError,
      (cleared steps cm bookmarks)\<lparr>marks := marks (cleared steps cm bookmarks) @
         zip (newMarkers (cleared steps cm bookmarks)
                (length (planLines (document cm) (renderedLines steps (document cm)))))
             (planLines (document cm) (renderedLines steps (document cm)))\<rparr>,
      newMarkers (cleared steps cm bookmarks)
        (length (planLines (document cm) (renderedLines steps (document cm)))))"
  by (simp add: renderExecutionFlow_eq place_eq)

lemma annotations_rendered:
  "renderExecutionFlow steps cm bookmarks = (e, cm', bookmarks') \<Longrightarrow>
   annotations cm' bookmarks' = planLines (document cm) (renderedLines steps (document cm))"
  by (auto simp: renderExecutionFlow_marks annotations_placed)

lemma cleared_placed:
  "arrowLayer c = computeJumpArrows steps \<Longrightarrow>
   cleared steps (c\<lparr>marks := marks c @ zip (newMarkers c (length bs)) bs\<rparr>)
     (newMarkers c (length bs)) = c"
  by (simp add: cleared_def filter_marks_old filter_marks_new)

lemma render_twice:
  "renderExecutionFlow steps cm bookmarks = (e, cm', bookmarks') \<Longrightarrow>
   renderExecutionFlow steps cm' bookmarks' = (e, cm', bookmarks')"
proof -
  assume r: "renderExecutionFlow steps cm bookmarks = (e, cm', bookmarks')"
  let ?c = "cleared steps cm bookmarks"
  let ?plan = "planLines (document cm) (renderedLines steps (document cm))"
  have cm': "cm' = ?c\<lparr>marks := marks ?c @ zip (newMarkers ?c (length ?plan)) ?plan\<rparr>"
    and b': "bookmarks' = newMarkers ?c (length ?plan)"
    using r by (auto simp: renderExecutionFlow_marks)
  have doc: "document cm' = document cm" by (simp add: cm' cleared_def)
  have "cleared steps cm' bookmarks' = ?c"
    unfolding cm' b' by (rule cleared_placed) (simp add: cleared_def)
  then have "renderExecutionFlow steps cm' bookmarks' = renderExecutionFlow steps cm bookmarks"
    by (simp only: renderExecutionFlow_eq doc)
  with r show ?thesis by (simp only:)
qed

section \<open>The bookmarks of a rendering\<close>

lemma replaceAll_append: "replaceAll c r (a @ b) = replaceAll c r a @ replaceAll c r b"
  by (simp add: replaceAll_def)

lemma escapeNewLines_escaped: "escapeNewLines s = escaped s"
proof (induction s)
  case Nil
  then show ?case by (simp add: escapeNewLines_def escaped_def replaceAll_def)
next
  case (Cons c s)
  have "replaceAll CR [backslash, CHR ''r''] (c # s)
        = (if c = CR then [backslash, CHR ''r''] else [c]) @ replaceAll CR [backslash, CHR ''r''] s"
    by (simp add: replaceAll_def)
  then have "escapeNewLines (c # s) =
      replaceAll LF [backslash, CHR ''n''] (if c = CR then [backslash, CHR ''r''] else [c])
      @ escapeNewLines s"
    by (simp only: escapeNewLines_def replaceAll_append)
  also have "replaceAll LF [backslash, CHR ''n''] (if c = CR then [backslash, CHR ''r''] else [c])
      = (if c = CR then [backslash, CHR ''r'']
         else if c = LF then [backslash, CHR ''n''] else [c])"
    by (simp add: replaceAll_def CR_def LF_def backslash_def)
  finally show ?case by (simp add: Cons.IH escaped_def)
qed

lemma escapeNewLines_is_escaped: "escapeNewLines = escaped"
  by (rule ext) (rule escapeNewLines_escaped)

lemma partsOf_line:
  "partsOf p (filter (\<lambda>s. line s = ln) (detailedSteps steps)) = fieldValues p ln steps"
  by (induction steps rule: detailedSteps.induct)
     (auto simp: partsOf_def truthy_def split: option.splits)

lemma detailedLines_eq: "detailedLines steps = map line (detailedSteps steps)"
  by (induction steps rule: detailedSteps.induct) simp_all

lemma set_detailedSteps: "s \<in> set (detailedSteps steps) \<longleftrightarrow> Detailed s \<in> set steps"
  by (induction steps rule: detailedSteps.induct) auto

lemma widgetClass_eq: "''flow-line-end flow-line-end-'' @ partNameString p = widgetClass p"
  by (cases p) simp_all

lemma planLine_fragments:
  "planLine doc (ln, filter (\<lambda>s. line s = ln) (detailedSteps steps)) =
     fragmentBookmarks doc steps Notes ln @ fragmentBookmarks doc steps Exception ln"
  by (simp add: planLine_def fragmentBookmarks_def fragment_def partsOf_line
      createFlowLineEndWidget_def escapeNewLines_is_escaped widgetClass_eq Let_def)

lemma groups_eq:
  "groupToMap (detailedSteps steps) line =
     map (\<lambda>ln. (ln, filter (\<lambda>s. line s = ln) (detailedSteps steps)))
       (firstEncounters (detailedLines steps))"
  by (simp add: groupToMap_eq detailedLines_eq)

lemma planLines_groups:
  "planLines doc (groupToMap (detailedSteps steps) line) =
     concat (map (\<lambda>ln. fragmentBookmarks doc steps Notes ln @ fragmentBookmarks doc steps Exception ln)
       (firstEncounters (detailedLines steps)))"
  by (simp add: planLines_def groups_eq comp_def planLine_fragments)

lemma all_lines_exist_iff:
  "list_all (\<lambda>g. lineExists doc (fst g)) (groupToMap (detailedSteps steps) line)
   \<longleftrightarrow> (\<forall>s. Detailed s \<in> set steps \<longrightarrow> lineExists doc (line s))"
  by (auto simp: groups_eq list_all_iff set_firstEncounters detailedLines_eq set_detailedSteps)

lemma outcome_eq:
  "fst (renderExecutionFlow steps cm bookmarks) =
     (if \<forall>s. Detailed s \<in> set steps \<longrightarrow> lineExists (document cm) (line s)
      then None else Some TypeError)"
  by (simp add: renderExecutionFlow_eq all_lines_exist_iff)

lemma annotations_returned:
  assumes "renderExecutionFlow steps cm bookmarks = (None, cm', bookmarks')"
  shows "annotations cm' bookmarks' =
     concat (map (\<lambda>ln. fragmentBookmarks (document cm) steps Notes ln
                       @ fragmentBookmarks (document cm) steps Exception ln)
       (firstEncounters (detailedLines steps)))"
proof -
  have "fst (renderExecutionFlow steps cm bookmarks) = None"
    using assms by simp
  then have "list_all (\<lambda>g. lineExists (document cm) (fst g)) (groupToMap (detailedSteps steps) line)"
    by (simp add: renderExecutionFlow_eq split: if_splits)
  then have "renderedLines steps (document cm) = groupToMap (detailedSteps steps) line"
    by (simp add: renderedLines_def list_all_iff takeWhile_eq_all_conv)
  then show ?thesis
    using annotations_rendered[OF assms] by (simp add: planLines_groups)
qed

lemma filter_concat_single:
  "distinct ks \<Longrightarrow> (\<And>k. k \<noteq> a \<Longrightarrow> filter Q (F k) = []) \<Longrightarrow>
   filter Q (concat (map F ks)) = (if a \<in> set ks then filter Q (F a) else [])"
proof (induction ks)
  case Nil
  then show ?case by simp
next
  case (Cons k ks)
  show ?case
  proof (cases "k = a")
    case True
    then have "a \<notin> set ks" using Cons.prems(1) by simp
    then have "filter Q (concat (map F ks)) = []"
      using Cons.IH Cons.prems by simp
    then show ?thesis using True by simp
  next
    case False
    then have "filter Q (F k) = []" by (rule Cons.prems(2))
    then show ?thesis using False Cons.IH Cons.prems by simp
  qed
qed

lemma fragmentBookmarks_line: "b \<in> set (fragmentBookmarks doc steps p ln) \<Longrightarrow> bmLine b = ln - 1"
  by (auto simp: fragmentBookmarks_def split: option.splits)

lemma fragmentBookmarks_class:
  "b \<in> set (fragmentBookmarks doc steps p ln) \<Longrightarrow> className (bmWidget b) = widgetClass p"
  by (auto simp: fragmentBookmarks_def split: option.splits)

lemma widgetClass_inj: "widgetClass p = widgetClass q \<longleftrightarrow> p = q"
  by (cases p; cases q) simp_all

lemma filter_fragmentBookmarks:
  "filter (\<lambda>b. bmLine b = ln - 1 \<and> className (bmWidget b) = widgetClass p)
     (fragmentBookmarks doc steps q k) =
   (if k = ln \<and> q = p then fragmentBookmarks doc steps p ln else [])"
  by (auto simp: fragmentBookmarks_def widgetClass_inj split: option.splits)

lemma fieldValues_lines: "fieldValues p ln steps \<noteq> [] \<Longrightarrow> ln \<in> set (detailedLines steps)"
  by (induction steps rule: detailedSteps.induct) (auto split: option.splits if_splits)

lemma fragmentBookmarks_absent:
  "ln \<notin> set (detailedLines steps) \<Longrightarrow> fragmentBookmarks doc steps p ln = []"
  using fieldValues_lines[of p ln steps]
  by (auto simp: fragmentBookmarks_def fragment_def Let_def)

lemma filter_annotations:
  assumes "renderExecutionFlow steps cm bookmarks = (None, cm', bookmarks')"
  shows "filter (\<lambda>b. bmLine b = ln - 1 \<and> className (bmWidget b) = widgetClass p)
           (annotations cm' bookmarks') = fragmentBookmarks (document cm) steps p ln"
proof -
  let ?Q = "\<lambda>b. bmLine b = ln - 1 \<and> className (bmWidget b) = widgetClass p"
  let ?F = "\<lambda>k. fragmentBookmarks (document cm) steps Notes k
                 @ fragmentBookmarks (document cm) steps Exception k"
  have other: "\<And>k. k \<noteq> ln \<Longrightarrow> filter ?Q (?F k) = []"
    by (simp add: filter_fragmentBookmarks)
  have here: "filter ?Q (fragmentBookmarks (document cm) steps Notes ln)
        @ filter ?Q (fragmentBookmarks (document cm) steps Exception ln)
      = fragmentBookmarks (document cm) steps p ln"
    by (cases p) (simp_all only: filter_fragmentBookmarks, simp_all)
  have "filter ?Q (annotations cm' bookmarks') =
      (if ln \<in> set (firstEncounters (detailedLines steps)) then filter ?Q (?F ln) else [])"
    unfolding annotations_returned[OF assms]
    by (rule filter_concat_single[OF distinct_firstEncounters other])
  then show ?thesis
    by (simp add: here set_firstEncounters fragmentBookmarks_absent)
qed

lemma join_contains: "x \<in> set xs \<Longrightarrow> \<exists>pre post. join sep xs = pre @ x @ post"
proof (induction sep xs rule: join.induct)
  case (1 sep)
  then show ?case by simp
next
  case (2 sep y)
  then have "join sep [y] = [] @ x @ []" by simp
  then show ?case by blast
next
  case (3 sep y z zs)
  show ?case
  proof (cases "x = y")
    case True
    then have "join sep (y # z # zs) = [] @ x @ (sep @ join sep (z # zs))" by simp
    then show ?thesis by blast
  next
    case False
    with 3 obtain pre post where "join sep (z # zs) = pre @ x @ post" by auto
    then have "join sep (y # z # zs) = (y @ sep @ pre) @ x @ post" by simp
    then show ?thesis by blast
  qed
qed

lemma fieldValues_mem:
  "Detailed s \<in> set steps \<Longrightarrow> part p s = Some t \<Longrightarrow> t \<noteq> [] \<Longrightarrow>
   t \<in> set (fieldValues p (line s) steps)"
  by (induction steps rule: detailedSteps.induct) (auto split: option.splits)

lemma annotations_of_cleared:
  "annotations (cm\<lparr>marks := filter (\<lambda>e. fst e \<notin> set bookmarks) (marks cm)\<rparr>) bookmarks = []"
proof -
  have "\<And>m. m \<in> set bookmarks \<Longrightarrow>
      map_of (filter (\<lambda>e. fst e \<notin> set bookmarks) (marks cm)) m = None"
    by (auto simp: map_of_eq_None_iff)
  then have "List.map_filter (map_of (filter (\<lambda>e. fst e \<notin> set bookmarks) (marks cm))) bookmarks
      = List.map_filter (\<lambda>m. None) bookmarks"
    by (intro map_filter_cong_set) simp
  then show ?thesis by (simp add: annotations_def map_filter_def)
qed

lemma takeWhile_groups:
  "renderedLines steps doc =
     map (\<lambda>ln. (ln, filter (\<lambda>s. line s = ln) (detailedSteps steps)))
       (takeWhile (lineExists doc) (firstEncounters (detailedLines steps)))"
  by (simp add: renderedLines_def groups_eq takeWhile_map comp_def)

lemma annotations_any_outcome:
  assumes "renderExecutionFlow steps cm bookmarks = (e, cm', bookmarks')"
  shows "annotations cm' bookmarks' =
     concat (map (\<lambda>ln. fragmentBookmarks (document cm) steps Notes ln
                       @ fragmentBookmarks (document cm) steps Exception ln)
       (takeWhile (lineExists (document cm)) (firstEncounters (detailedLines steps))))"
  using annotations_rendered[OF assms]
  by (simp add: takeWhile_groups planLines_def comp_def planLine_fragments)

lemma result_collapse:
  "renderExecutionFlow steps cm bookmarks =
     (fst (renderExecutionFlow steps cm bookmarks),
      fst (snd (renderExecutionFlow steps cm bookmarks)),
      snd (snd (renderExecutionFlow steps cm bookmarks)))"
  by simp

lemma sampleSteps_returns: "fst (renderExecutionFlow sampleSteps sampleEditor [4]) = None"
  by (simp add: outcome_eq sampleSteps_def sampleEditor_def lineExists_def)

lemma sampleNotes_returns: "fst (renderExecutionFlow sampleNotes sampleEditor [4]) = None"
  by (simp add: outcome_eq sampleNotes_def sampleEditor_def lineExists_def)

section \<open>Skipped steps\<close>

text \<open>
  C2. A skipped step leaves the scan as it is, so the scan of a sequence is the scan of
  the sequence without its skipped steps, from any state of the scan, and the arrows are
  the same; yet a skipped detailed step is grouped with the others of its line: when the
  renderer returns normally, a non-empty note or exception text of a skipped step appears
  (with its line breaks escaped) in the text of the live bookmark of that field on the
  step's line.
\<close>

theorem skipped_steps_only_annotate:
  "(stepSkipped step \<longrightarrow> scanStep step st = st)
   \<and> scanSteps (filter (\<lambda>step. \<not> stepSkipped step) steps) st = scanSteps steps st
   \<and> computeJumpArrows (filter (\<lambda>step. \<not> stepSkipped step) steps) = computeJumpArrows steps
   \<and> (renderExecutionFlow steps cm bookmarks = (None, cm', bookmarks') \<longrightarrow>
        Detailed s \<in> set steps \<longrightarrow> skipped s \<longrightarrow> part p s = Some t \<longrightarrow> t \<noteq> [] \<longrightarrow>
        (\<exists>b pre post. b \<in> set (annotations cm' bookmarks') \<and> bmLine b = line s - 1
            \<and> className (bmWidget b) = widgetClass p
            \<and> textContent (bmWidget b) = pre @ escaped t @ post))"
proof (intro conjI impI)
  show "scanStep step st = st" if "stepSkipped step"
    using that by (rule scanStep_skipped)
  show "scanSteps (filter (\<lambda>step. \<not> stepSkipped step) steps) st = scanSteps steps st"
    by (rule scanSteps_filter)
  show "computeJumpArrows (filter (\<lambda>step. \<not> stepSkipped step) steps) = computeJumpArrows steps"
    by (simp add: computeJumpArrows_def scanSteps_filter)
next
  assume r: "renderExecutionFlow steps cm bookmarks = (None, cm', bookmarks')"
    and s: "Detailed s \<in> set steps" and t: "part p s = Some t" "t \<noteq> []"
  let ?vs = "fieldValues p (line s) steps"
  have mem: "t \<in> set ?vs" using s t by (rule fieldValues_mem)
  then have ne: "?vs \<noteq> []" by auto
  let ?b = "\<lparr>bmLine = line s - 1, bmCh = length (document cm ! nat (line s - 1)),
             bmWidget = \<lparr>className = widgetClass p,
                         textContent = join ''; '' (map escaped ?vs)\<rparr>\<rparr>"
  have fb: "fragmentBookmarks (document cm) steps p (line s) = [?b]"
    using ne by (simp add: fragmentBookmarks_def fragment_def)
  have "?b \<in> set (filter (\<lambda>b. bmLine b = line s - 1 \<and> className (bmWidget b) = widgetClass p)
                    (annotations cm' bookmarks'))"
    by (simp only: filter_annotations[OF r] fb list.set_intros)
  then have live: "?b \<in> set (annotations cm' bookmarks')" by simp
  have "escaped t \<in> set (map escaped ?vs)" using mem by simp
  then obtain pre post where "join ''; '' (map escaped ?vs) = pre @ escaped t @ post"
    using join_contains by blast
  then have "?b \<in> set (annotations cm' bookmarks') \<and> bmLine ?b = line s - 1
      \<and> className (bmWidget ?b) = widgetClass p
      \<and> textContent (bmWidget ?b) = pre @ escaped t @ post"
    using live by simp
  then show "\<exists>b pre post. b \<in> set (annotations cm' bookmarks') \<and> bmLine b = line s - 1
            \<and> className (bmWidget b) = widgetClass p
            \<and> textContent (bmWidget b) = pre @ escaped t @ post"
    by blast
qed

theorem skipped_steps_only_annotate_witness:
  "computeJumpArrows sampleSteps = computeJumpArrows [Bare 1, Bare 3]
   \<and> computeJumpArrows sampleSteps = []
   \<and> fst (renderExecutionFlow sampleSteps sampleEditor [4]) = None
   \<and> (\<exists>b pre post.
        b \<in> set (annotations (fst (snd (renderExecutionFlow sampleSteps sampleEditor [4])))
                   (snd (snd (renderExecutionFlow sampleSteps sampleEditor [4]))))
        \<and> bmLine b = 1 \<and> className (bmWidget b) = ''flow-line-end flow-line-end-notes''
        \<and> textContent (bmWidget b) = pre @ ''n'' @ post)"
proof -
  let ?R = "renderExecutionFlow sampleSteps sampleEditor [4]"
  let ?s = "\<lparr>line = 2, skipped = True, exception = None, notes' = Some ''n''\<rparr>"
  have eq: "?R = (None, fst (snd ?R), snd (snd ?R))"
    using sampleSteps_returns by (simp add: prod_eq_iff)
  have arrows: "computeJumpArrows sampleSteps = []"
    by (simp add: sampleSteps_def computeJumpArrows_def initialScan_def scanStep_def
        important_def truthy_def)
  show ?thesis
    using skipped_steps_only_annotate[where steps = sampleSteps and st = initialScan
        and step = "Detailed ?s" and cm = sampleEditor
        and bookmarks = "[4]" and cm' = "fst (snd ?R)" and bookmarks' = "snd (snd ?R)"
        and s = ?s and p = Notes and t = "''n''"] eq arrows sampleSteps_returns
    by (simp add: sampleSteps_def escaped_def CR_def LF_def)
qed

section \<open>The text of an annotation\<close>

text \<open>
  C3. When the renderer returns normally, then for every line and for each of the two
  fields: the live bookmarks of the renderer on that line with the class of that field
  are none when the field has no non-empty value among the detailed steps of the line,
  and otherwise exactly one, at the end of the line, whose text is the non-empty values
  of the field in encounter order, each with every carriage return replaced by
  backslash r and every line feed by backslash n, joined with a semicolon and a space.
  Bare steps contribute no value.
\<close>

theorem annotation_fragment_of_line_and_field:
  assumes "renderExecutionFlow steps cm bookmarks = (None, cm', bookmarks')"
  shows "filter (\<lambda>b. bmLine b = ln - 1 \<and> className (bmWidget b) = widgetClass p)
           (annotations cm' bookmarks') =
         (case fragment p ln steps of
            None \<Rightarrow> []
          | Some t \<Rightarrow>
              [\<lparr>bmLine = ln - 1, bmCh = length (document cm ! nat (ln - 1)),
                bmWidget = \<lparr>className = widgetClass p, textContent = t\<rparr>\<rparr>])"
  using filter_annotations[OF assms, of ln p] by (simp add: fragmentBookmarks_def)

theorem annotation_fragment_of_line_and_field_witness:
  "fst (renderExecutionFlow sampleNotes sampleEditor [4]) = None
   \<and> filter (\<lambda>b. bmLine b = 2 \<and> className (bmWidget b) = ''flow-line-end flow-line-end-notes'')
       (annotations (fst (snd (renderExecutionFlow sampleNotes sampleEditor [4])))
          (snd (snd (renderExecutionFlow sampleNotes sampleEditor [4]))))
     = [\<lparr>bmLine = 2, bmCh = 1,
         bmWidget = \<lparr>className = ''flow-line-end flow-line-end-notes'',
                     textContent = ''a; b'' @ [backslash, CHR ''n'']\<rparr>\<rparr>]
   \<and> filter (\<lambda>b. bmLine b = 0 \<and> className (bmWidget b) = ''flow-line-end flow-line-end-notes'')
       (annotations (fst (snd (renderExecutionFlow sampleNotes sampleEditor [4])))
          (snd (snd (renderExecutionFlow sampleNotes sampleEditor [4]))))
     = []"
proof -
  let ?R = "renderExecutionFlow sampleNotes sampleEditor [4]"
  have eq: "?R = (None, fst (snd ?R), snd (snd ?R))"
    using sampleNotes_returns by (simp add: prod_eq_iff)
  show ?thesis
    using annotation_fragment_of_line_and_field[OF eq, of 3 Notes]
      annotation_fragment_of_line_and_field[OF eq, of 1 Notes] sampleNotes_returns
    by (simp add: sampleNotes_def sampleEditor_def fragment_def escaped_def CR_def LF_def
        backslash_def truthy_def)
qed

section \<open>Clearing and rendering again\<close>

text \<open>
  C4. Rendering the empty sequence returns normally with an empty arrow layer and an
  empty bookmark array; the editor keeps exactly the bookmarks whose markers were not in
  the array, so every bookmark the array held is cleared, none is created, and no marker
  of the old array stands for a live bookmark any more.
\<close>

theorem empty_sequence_clears_decorations:
  "renderExecutionFlow [] cm bookmarks =
     (None,
      cm\<lparr>marks := filter (\<lambda>e. fst e \<notin> set bookmarks) (marks cm), arrowLayer := []\<rparr>,
      [])
   \<and> annotations (fst (snd (renderExecutionFlow [] cm bookmarks))) bookmarks = []"
proof -
  have r: "renderExecutionFlow [] cm bookmarks =
     (None,
      cm\<lparr>marks := filter (\<lambda>e. fst e \<notin> set bookmarks) (marks cm), arrowLayer := []\<rparr>,
      [])"
    by (simp add: renderExecutionFlow_def clearBookmarks_eq setJumpArrows_def
        computeJumpArrows_def initialScan_def)
  have "annotations (cm\<lparr>marks := filter (\<lambda>e. fst e \<notin> set bookmarks) (marks cm),
                        arrowLayer := []\<rparr>) bookmarks = []"
    using annotations_of_cleared[where cm = cm and bookmarks = bookmarks]
    by (simp add: annotations_def)
  with r show ?thesis by simp
qed

theorem empty_sequence_clears_decorations_witness:
  "renderExecutionFlow [] sampleEditor [4] =
     (None,
      \<lparr>document = [''ab'', ''cde'', ''f''], arrowLayer = [],
       marks = [(9, \<lparr>bmLine = 1, bmCh = 0,
                     bmWidget = \<lparr>className = ''other'', textContent = ''kept''\<rparr>\<rparr>)]\<rparr>,
      [])"
  using empty_sequence_clears_decorations[of sampleEditor "[4]"] by (simp add: sampleEditor_def)

text \<open>
  C5. Rendering a sequence, and then rendering the same sequence on the editor and the
  bookmark array the first call left, leaves the same decorations (arrow layer and live
  bookmarks), the same annotations behind the array and an array of the same length, and
  ends the same way: nothing accumulates.
\<close>

theorem rendering_twice_is_rendering_once:
  assumes "renderExecutionFlow steps cm bookmarks = (e, cm', bookmarks')"
    and "renderExecutionFlow steps cm' bookmarks' = (e2, cm'', bookmarks'')"
  shows "decorations cm'' = decorations cm'
     \<and> annotations cm'' bookmarks'' = annotations cm' bookmarks'
     \<and> length bookmarks'' = length bookmarks'
     \<and> e2 = e"
  using render_twice[OF assms(1)] assms(2) by simp

theorem rendering_twice_is_rendering_once_witness:
  "decorations (fst (snd (renderExecutionFlow sampleNotes
       (fst (snd (renderExecutionFlow sampleNotes sampleEditor [4])))
       (snd (snd (renderExecutionFlow sampleNotes sampleEditor [4]))))))
     = decorations (fst (snd (renderExecutionFlow sampleNotes sampleEditor [4])))
   \<and> length (snd (snd (renderExecutionFlow sampleNotes
       (fst (snd (renderExecutionFlow sampleNotes sampleEditor [4])))
       (snd (snd (renderExecutionFlow sampleNotes sampleEditor [4]))))))
     = length (snd (snd (renderExecutionFlow sampleNotes sampleEditor [4])))
   \<and> length (snd (snd (renderExecutionFlow sampleNotes sampleEditor [4]))) = 3"
proof -
  let ?R = "renderExecutionFlow sampleNotes sampleEditor [4]"
  let ?R2 = "renderExecutionFlow sampleNotes (fst (snd ?R)) (snd (snd ?R))"
  have eq: "?R = (None, fst (snd ?R), snd (snd ?R))"
    using sampleNotes_returns by (simp add: prod_eq_iff)
  have len: "length (snd (snd ?R)) = 3"
    by (simp add: renderExecutionFlow_def clearBookmarks.simps sampleNotes_def sampleEditor_def
        groupToMap_def partsOf_def truthy_def setBookmark_def getLine_def clear_def
        setJumpArrows_def Let_def)
  show ?thesis
    using rendering_twice_is_rendering_once[OF eq result_collapse] len by simp
qed

section \<open>The order of the annotations\<close>

text \<open>
  C9. However the renderer ends, the bookmarks behind the array, in the order they were
  pushed, are those of the lines of the detailed steps in the order of their first
  encounter (up to the first line the document lacks), and on each line the bookmark of
  the notes, if any, comes before the bookmark of the exception, if any. The keys of the
  grouping are the lines in the order of their first encounter.
\<close>

theorem annotations_in_first_encounter_order:
  assumes "renderExecutionFlow steps cm bookmarks = (e, cm', bookmarks')"
  shows "annotations cm' bookmarks' =
     concat (map (\<lambda>ln. fragmentBookmarks (document cm) steps Notes ln
                       @ fragmentBookmarks (document cm) steps Exception ln)
       (takeWhile (lineExists (document cm)) (firstEncounters (detailedLines steps))))
     \<and> map fst (groupToMap (detailedSteps steps) line) = firstEncounters (detailedLines steps)"
  using annotations_any_outcome[OF assms] by (simp add: groups_eq comp_def)

theorem annotations_in_first_encounter_order_witness:
  "map (\<lambda>b. (bmLine b, className (bmWidget b)))
     (annotations (fst (snd (renderExecutionFlow sampleNotes sampleEditor [4])))
        (snd (snd (renderExecutionFlow sampleNotes sampleEditor [4]))))
     = [(2, ''flow-line-end flow-line-end-notes''),
        (2, ''flow-line-end flow-line-end-exception''),
        (0, ''flow-line-end flow-line-end-exception'')]
   \<and> map fst (groupToMap (detailedSteps sampleNotes) line) = [3, 1]"
  using annotations_in_first_encounter_order[OF result_collapse, of sampleNotes sampleEditor "[4]"]
  by (simp add: sampleNotes_def sampleEditor_def fragmentBookmarks_def fragment_def
      lineExists_def truthy_def)

section \<open>Lines the document lacks\<close>

text \<open>
  C10. The renderer throws exactly when some detailed step, skipped or not, with or
  without notes and exception, has a 1-based line that the document of the editor does
  not have: the line text of every line with a detailed step is read.
\<close>

theorem missing_line_throws:
  "fst (renderExecutionFlow steps cm bookmarks) =
     (if \<exists>s. Detailed s \<in> set steps \<and> (line s < 1 \<or> int (length (document cm)) < line s)
      then Some TypeError else None)"
  by (auto simp: outcome_eq lineExists_def)

theorem missing_line_throws_witness:
  "fst (renderExecutionFlow
      [Bare 1, Detailed \<lparr>line = 4, skipped = False, exception = None, notes' = None\<rparr>]
      sampleEditor [4]) = Some TypeError
   \<and> fst (renderExecutionFlow
      [Bare 1, Detailed \<lparr>line = 3, skipped = False, exception = None, notes' = None\<rparr>]
      sampleEditor [4]) = None"
  using missing_line_throws
      [of "[Bare 1, Detailed \<lparr>line = 4, skipped = False, exception = None, notes' = None\<rparr>]"
        sampleEditor "[4]"]
    missing_line_throws
      [of "[Bare 1, Detailed \<lparr>line = 3, skipped = False, exception = None, notes' = None\<rparr>]"
        sampleEditor "[4]"]
  by (simp add: sampleEditor_def)

section \<open>The deferred connection\<close>

lemma run_append: "run (xs @ ys) c = run ys (run xs c)"
  by (induction xs arbitrary: c) simp_all

lemma handle_quiet:
  "\<not> isTrigger e \<Longrightarrow> \<not> isRecreate e \<Longrightarrow>
   initialConnectionRequested (handle e c) = initialConnectionRequested c
   \<and> connects (handle e c) = connects c"
  by (cases e) (simp_all add: emit_def call_def connects_def)

lemma run_quiet:
  "list_all (\<lambda>e. \<not> isTrigger e \<and> \<not> isRecreate e) pre \<Longrightarrow>
   initialConnectionRequested (run pre c) = initialConnectionRequested c
   \<and> connects (run pre c) = connects c"
  by (induction pre arbitrary: c) (simp_all add: handle_quiet)

lemma handle_trigger:
  "\<not> initialConnectionRequested c \<Longrightarrow> isTrigger e \<Longrightarrow>
   initialConnectionRequested (handle e c) \<and> connects (handle e c) = Suc (connects c)"
  by (cases e) (simp_all add: emit_def call_def connects_def connectIfInitialWasCached_def)

lemma handle_recreate:
  "isRecreate e \<Longrightarrow>
   initialConnectionRequested (handle e c) \<and> connects (handle e c) = connects c
   \<and> \<not> noInitialConnection (mirrorOptions (handle e c))
   \<and> last (calls (handle e c)) = Mirrorsharp (mirrorOptions (handle e c))"
  by (cases e) (simp_all add: call_def connects_def recreate_def Let_def)

lemma handle_requested:
  "initialConnectionRequested c \<Longrightarrow>
   initialConnectionRequested (handle e c) \<and> connects (handle e c) = connects c"
  by (cases e)
     (simp_all add: emit_def call_def connects_def connectIfInitialWasCached_def recreate_def
        Let_def)

lemma run_requested:
  "initialConnectionRequested c \<Longrightarrow>
   initialConnectionRequested (run es c) \<and> connects (run es c) = connects c"
  by (induction es arbitrary: c) (simp_all add: handle_requested)

lemma handle_deferred:
  "\<not> initialConnectionRequested c \<Longrightarrow>
   (\<not> initialConnectionRequested (handle e c) \<and> connects (handle e c) = connects c)
   \<or> (initialConnectionRequested (handle e c) \<and> connects (handle e c) \<le> Suc (connects c))"
  by (cases e)
     (simp_all add: emit_def call_def connects_def connectIfInitialWasCached_def recreate_def
        Let_def)

lemma run_at_most_once:
  "connects (run es c) \<le> (if initialConnectionRequested c then connects c else Suc (connects c))"
proof (induction es arbitrary: c)
  case Nil
  then show ?case by simp
next
  case (Cons e es)
  show ?case
  proof (cases "initialConnectionRequested c")
    case True
    then show ?thesis using run_requested[of c "e # es"] by simp
  next
    case False
    from handle_deferred[OF False, of e] show ?thesis
    proof
      assume "\<not> initialConnectionRequested (handle e c) \<and> connects (handle e c) = connects c"
      then show ?thesis using Cons.IH[of "handle e c"] False by simp
    next
      assume "initialConnectionRequested (handle e c) \<and> connects (handle e c) \<le> Suc (connects c)"
      then show ?thesis using run_requested[of "handle e c" es] False by simp
    qed
  qed
qed

text \<open>
  C6 (as amended). A component mounted with \<open>initialCached\<close> creates its instance with
  \<open>noInitialConnection\<close> and does not call \<open>connect\<close>; events that are neither a text
  change reported by the widget (an edit by the user, or the replacement of the text after
  a change of the initial text), nor a language change, nor a server-options change, nor
  a change of the service URL leave the connection deferred. If the first event of these
  four kinds is a text, language or server-options change, it calls \<open>connect\<close> exactly
  once; if it is a change of the service URL, the instance is recreated without
  \<open>noInitialConnection\<close> and \<open>connect\<close> is not called. In both cases no later event
  calls \<open>connect\<close> and the request flag stays set: the component never defers again, and
  on every sequence of events \<open>connect\<close> is called at most once.
\<close>

theorem deferred_connection_ends_once:
  assumes "initialCached props"
    and "list_all (\<lambda>e. \<not> isTrigger e \<and> \<not> isRecreate e) pre"
  shows "calls (mounted props) = [Mirrorsharp (mirrorOptions (mounted props))]
     \<and> noInitialConnection (mirrorOptions (mounted props))
     \<and> connects (run pre (mounted props)) = 0
     \<and> \<not> initialConnectionRequested (run pre (mounted props))
     \<and> (isTrigger e \<longrightarrow>
          connects (run (pre @ [e]) (mounted props)) = 1
          \<and> connects (run (pre @ e # post) (mounted props)) = 1
          \<and> initialConnectionRequested (run (pre @ e # post) (mounted props)))
     \<and> (isRecreate e \<longrightarrow>
          connects (run (pre @ [e]) (mounted props)) = 0
          \<and> \<not> noInitialConnection (mirrorOptions (run (pre @ [e]) (mounted props)))
          \<and> last (calls (run (pre @ [e]) (mounted props)))
              = Mirrorsharp (mirrorOptions (run (pre @ [e]) (mounted props)))
          \<and> connects (run (pre @ e # post) (mounted props)) = 0
          \<and> initialConnectionRequested (run (pre @ e # post) (mounted props)))
     \<and> connects (run evs (mounted props)) \<le> 1"
proof -
  let ?c0 = "mounted props"
  have m: "calls ?c0 = [Mirrorsharp (mirrorOptions ?c0)]" "noInitialConnection (mirrorOptions ?c0)"
    "\<not> initialConnectionRequested ?c0" "connects ?c0 = 0"
    using assms(1) by (simp_all add: mounted_def connects_def Let_def)
  let ?c1 = "run pre ?c0"
  have q: "\<not> initialConnectionRequested ?c1" "connects ?c1 = 0"
    using run_quiet[OF assms(2), of ?c0] m by simp_all
  let ?c2 = "handle e ?c1"
  have trig: "connects (run (pre @ [e]) ?c0) = 1
      \<and> connects (run (pre @ e # post) ?c0) = 1
      \<and> initialConnectionRequested (run (pre @ e # post) ?c0)" if "isTrigger e"
  proof -
    have t: "initialConnectionRequested ?c2" "connects ?c2 = 1"
      using handle_trigger[OF q(1) that] q(2) by simp_all
    have a: "initialConnectionRequested (run post ?c2)" "connects (run post ?c2) = 1"
      using run_requested[OF t(1), of post] t(2) by simp_all
    show ?thesis using t a by (simp add: run_append)
  qed
  have recr: "connects (run (pre @ [e]) ?c0) = 0
      \<and> \<not> noInitialConnection (mirrorOptions (run (pre @ [e]) ?c0))
      \<and> last (calls (run (pre @ [e]) ?c0)) = Mirrorsharp (mirrorOptions (run (pre @ [e]) ?c0))
      \<and> connects (run (pre @ e # post) ?c0) = 0
      \<and> initialConnectionRequested (run (pre @ e # post) ?c0)" if "isRecreate e"
  proof -
    have t: "initialConnectionRequested ?c2" "connects ?c2 = 0"
      "\<not> noInitialConnection (mirrorOptions ?c2)"
      "last (calls ?c2) = Mirrorsharp (mirrorOptions ?c2)"
      using handle_recreate[OF that, of ?c1] q(2) by simp_all
    have a: "initialConnectionRequested (run post ?c2)" "connects (run post ?c2) = 0"
      using run_requested[OF t(1), of post] t(2) by simp_all
    show ?thesis using t a by (simp add: run_append)
  qed
  have b: "connects (run evs ?c0) \<le> 1"
    using run_at_most_once[of evs ?c0] m by simp
  show ?thesis
    using m q trig recr b by simp
qed

theorem deferred_connection_ends_once_witness:
  "initialCached sampleProps
   \<and> list_all (\<lambda>e. \<not> isTrigger e \<and> \<not> isRecreate e)
       [ConnectionChange ''open'', CursorActivity, SlowUpdateWait]
   \<and> isTrigger (TextChange ''y'')
   \<and> connects (run [ConnectionChange ''open'', CursorActivity, SlowUpdateWait]
        (mounted sampleProps)) = 0
   \<and> connects (run ([ConnectionChange ''open'', CursorActivity, SlowUpdateWait]
        @ [TextChange ''y'']) (mounted sampleProps)) = 1
   \<and> connects (run ([ConnectionChange ''open'', CursorActivity, SlowUpdateWait]
        @ TextChange ''y'' # [LanguageChanged ''F#'', TextChange ''z'', ServiceUrlChanged ''u'',
             InitialTextChanged ''w'']) (mounted sampleProps)) = 1
   \<and> isRecreate (ServiceUrlChanged ''u'')
   \<and> connects (run ([ConnectionChange ''open'', CursorActivity, SlowUpdateWait]
        @ ServiceUrlChanged ''u'' # [LanguageChanged ''F#'', TextChange ''z'', ServiceUrlChanged ''u'',
             InitialTextChanged ''w'']) (mounted sampleProps)) = 0"
  using deferred_connection_ends_once
    [of sampleProps "[ConnectionChange ''open'', CursorActivity, SlowUpdateWait]"
      "TextChange ''y''"
      "[LanguageChanged ''F#'', TextChange ''z'', ServiceUrlChanged ''u'', InitialTextChanged ''w'']"
      "[]"]
    deferred_connection_ends_once
    [of sampleProps "[ConnectionChange ''open'', CursorActivity, SlowUpdateWait]"
      "ServiceUrlChanged ''u''"
      "[LanguageChanged ''F#'', TextChange ''z'', ServiceUrlChanged ''u'', InitialTextChanged ''w'']"
      "[]"]
  by (simp add: sampleProps_def)

text \<open>
  After a change of the service URL the first text edit does not call \<open>connect\<close>: the
  recreated instance was created without \<open>noInitialConnection\<close>. And a change of the
  initial text alone, with no edit by the user and no change of the language or of the
  server options, calls \<open>connect\<close>.
\<close>

theorem first_edit_after_url_change_counterexample:
  "connects (mounted sampleProps) = 0
   \<and> connects (run [ServiceUrlChanged ''u''] (mounted sampleProps)) = 0
   \<and> \<not> noInitialConnection (mirrorOptions (run [ServiceUrlChanged ''u''] (mounted sampleProps)))
   \<and> connects (run [ServiceUrlChanged ''u'', TextChange ''t''] (mounted sampleProps)) = 0
   \<and> connects (run [InitialTextChanged ''x''] (mounted sampleProps)) = 1"
  by (simp add: sampleProps_def mounted_def connects_def call_def emit_def recreate_def
      connectIfInitialWasCached_def Let_def)

section \<open>Forwarded events\<close>

text \<open>
  C7 (as amended). Each event of the widget is forwarded as exactly one notification:
  \<open>slow-update-wait\<close> with no payload, \<open>slow-update-result\<close> with the result,
  \<open>connection-change\<close> with the state, \<open>text-change\<close> with the text accessor,
  \<open>server-error\<close> with the message and \<open>cursor-move\<close> with the offset accessor.
\<close>

theorem widget_events_forwarded:
  "emitted (handle SlowUpdateWait c) = emitted c @ [(''slow-update-wait'', NoPayload)]
   \<and> emitted (handle (SlowUpdateResult r) c) = emitted c @ [(''slow-update-result'', Result r)]
   \<and> emitted (handle (ConnectionChange st) c) = emitted c @ [(''connection-change'', State st)]
   \<and> emitted (handle (TextChange g) c) = emitted c @ [(''text-change'', GetText g)]
   \<and> emitted (handle (ServerError m) c) = emitted c @ [(''server-error'', Message m)]
   \<and> emitted (handle CursorActivity c) = emitted c @ [(''cursor-move'', GetCursorOffset)]"
  by (simp add: emit_def connectIfInitialWasCached_def)

theorem widget_events_forwarded_witness:
  "emitted (run [SlowUpdateWait, SlowUpdateResult ''r'', ConnectionChange ''open'',
       TextChange ''t'', ServerError ''m'', CursorActivity] (mounted sampleProps)) =
     [(''slow-update-wait'', NoPayload), (''slow-update-result'', Result ''r''),
      (''connection-change'', State ''open''), (''text-change'', GetText ''t''),
      (''server-error'', Message ''m''), (''cursor-move'', GetCursorOffset)]"
  using widget_events_forwarded[of "mounted sampleProps" "''r''" "''open''" "''t''" "''m''"]
  by (simp add: emit_def connectIfInitialWasCached_def mounted_def sampleProps_def Let_def)

text \<open>
  A change of the connection state is emitted as \<open>connection-change\<close>; no notification
  named \<open>connection-state-change\<close> is emitted.
\<close>

theorem connection_state_change_name_counterexample:
  "emitted (handle (ConnectionChange ''open'') (mounted sampleProps))
     = [(''connection-change'', State ''open'')]
   \<and> ''connection-state-change''
       \<notin> set (map fst (emitted (handle (ConnectionChange ''open'') (mounted sampleProps))))"
  by (simp add: emit_def mounted_def Let_def)

end
